theory Spec2Isabelle
  imports Complex_Main
begin

section \<open>Data model of \<open>process_srt.py\<close>\<close>

text \<open>
  The exceptions the program can raise while it reads the telemetry log and the command
  line. \<open>KeyError\<close> carries the missing dictionary key, \<open>ValueError\<close> the text that
  \<open>float()\<close> or \<open>int()\<close> refused.
\<close>

datatype error = ZeroDivisionError | KeyError string | ValueError string

text \<open>
  The dataclass \<open>ImageData\<close>. Python floats are modelled as reals (every finite float is
  a real number, and the comparisons \<open>!= 0.0\<close> and \<open>> 0\<close> are exact on them); rounding,
  infinities and NaN are outside this model. \<open>frame_num\<close> is a Python \<open>int\<close>.
\<close>

record ImageData =
  lat :: real
  long :: real
  abs_alt :: real
  focal_len :: real
  frame_num :: int

section \<open>\<open>calculate_frame_increment\<close>\<close>

text \<open>
  \<open>int(x)\<close> on a float truncates towards zero.
\<close>

definition int_of_float :: "real \<Rightarrow> int" where
  "int_of_float x = (if 0 \<le> x then \<lfloor>x\<rfloor> else \<lceil>x\<rceil>)"

text \<open>
  The source opens the video at \<open>mp4_path\<close> and asks the decoder for \<open>CAP_PROP_FPS\<close>;
  the model takes the reported frame rate in place of the path and computes
  \<open>int(framerate * seconds)\<close>.
\<close>

definition calculate_frame_increment :: "real \<Rightarrow> real \<Rightarrow> int" where
  "calculate_frame_increment seconds framerate = int_of_float (framerate * seconds)"

section \<open>\<open>decimal_degrees_to_minutes_seconds\<close>\<close>

text \<open>
  \<open>divmod(x, y)\<close> on floats: the floored quotient (as a float) and the remainder
  \<open>x - q * y\<close>; a zero divisor raises.
\<close>

definition divmod_float :: "real \<Rightarrow> real \<Rightarrow> error + (real \<times> real)" where
  "divmod_float x y =
     (if y = 0 then Inl ZeroDivisionError
      else Inr (of_int \<lfloor>x / y\<rfloor>, x - of_int \<lfloor>x / y\<rfloor> * y))"

definition decimal_degrees_to_minutes_seconds :: "real \<Rightarrow> error + (real \<times> real \<times> real)" where
  "decimal_degrees_to_minutes_seconds decimal =
     (case divmod_float (\<bar>decimal\<bar> * 3600) 60 of
        Inl e \<Rightarrow> Inl e
      | Inr (mnt, sec) \<Rightarrow>
          (case divmod_float mnt 60 of
             Inl e \<Rightarrow> Inl e
           | Inr (deg, mnt') \<Rightarrow> Inr (deg, mnt', sec)))"

section \<open>The EXIF fields written by \<open>save_images\<close>\<close>

datatype GpsAltitudeRef = ABOVE_SEA_LEVEL | BELOW_SEA_LEVEL

text \<open>
  The attributes that the loop body of \<open>save_images\<close> assigns on the \<open>exif.Image\<close>
  object of one frame, in the order of the source.
\<close>

record exif_image =
  gps_latitude :: "real \<times> real \<times> real"
  gps_latitude_ref :: string
  gps_longitude :: "real \<times> real \<times> real"
  gps_longitude_ref :: string
  gps_altitude :: real
  gps_altitude_ref :: GpsAltitudeRef
  focal_length :: real

definition add_exif_data :: "ImageData \<Rightarrow> error + exif_image" where
  "add_exif_data frame =
     (case decimal_degrees_to_minutes_seconds (lat frame) of
        Inl e \<Rightarrow> Inl e
      | Inr dms_lat \<Rightarrow>
          (case decimal_degrees_to_minutes_seconds (long frame) of
             Inl e \<Rightarrow> Inl e
           | Inr dms_long \<Rightarrow>
               Inr \<lparr> gps_latitude = dms_lat,
                     gps_latitude_ref = (if lat frame > 0 then ''N'' else ''S''),
                     gps_longitude = dms_long,
                     gps_longitude_ref = (if long frame > 0 then ''E'' else ''W''),
                     gps_altitude = \<bar>abs_alt frame\<bar>,
                     gps_altitude_ref =
                       (if abs_alt frame > 0 then ABOVE_SEA_LEVEL else BELOW_SEA_LEVEL),
                     focal_length = focal_len frame \<rparr>))"

section \<open>\<open>read_line_attributes\<close>\<close>

text \<open>
  The classes of the pattern \<open>(\w+):\s([^\s\[\]]+)\<close> on ASCII text: \<open>\w\<close> is a letter,
  a digit or the underscore; \<open>\s\<close> is a character for which \<open>str.isspace\<close> holds (codes
  9 to 13 and 28 to 32). Characters beyond ASCII are outside this model.
\<close>

definition is_word :: "char \<Rightarrow> bool" where
  "is_word c =
     (let n = (of_char c :: nat) in
      (48 \<le> n \<and> n \<le> 57) \<or> (65 \<le> n \<and> n \<le> 90) \<or> n = 95 \<or> (97 \<le> n \<and> n \<le> 122))"

definition is_space :: "char \<Rightarrow> bool" where
  "is_space c = (let n = (of_char c :: nat) in (9 \<le> n \<and> n \<le> 13) \<or> (28 \<le> n \<and> n \<le> 32))"

definition is_value_char :: "char \<Rightarrow> bool" where
  "is_value_char c = (\<not> is_space c \<and> c \<noteq> CHR ''['' \<and> c \<noteq> CHR '']'')"

text \<open>
  One attempt of the regular expression at the start of \<open>s\<close>: the key, the value and the
  text after the match. Both repetitions are greedy and neither can give characters back
  with success: a shorter key is followed by a word character, not by the colon, and
  nothing follows the value group.
\<close>

definition match_here :: "string \<Rightarrow> (string \<times> string \<times> string) option" where
  "match_here s =
     (let key = takeWhile is_word s in
      if key = [] then None
      else
        case dropWhile is_word s of
          c1 # c2 # s2 \<Rightarrow>
            if c1 = CHR '':'' \<and> is_space c2 then
              (let val = takeWhile is_value_char s2 in
               if val = [] then None else Some (key, val, dropWhile is_value_char s2))
            else None
        | _ \<Rightarrow> None)"

text \<open>
  \<open>re.findall\<close> with this pattern: scan from left to right, and after a match go on behind
  it.
\<close>

function findall :: "string \<Rightarrow> (string \<times> string) list" where
  "findall [] = []"
| "findall (c # cs) =
     (case match_here (c # cs) of
        Some (key, val, rest) \<Rightarrow> (key, val) # findall rest
      | None \<Rightarrow> findall cs)"
  by pat_completeness auto
termination
proof (relation "measure length")
  show "wf (measure length)" by simp
next
  fix c :: char and cs key val rest :: string and m kv
  assume "match_here (c # cs) = Some m" and "(key, kv) = m" and "(val, rest) = kv"
  then have m: "match_here (c # cs) = Some (key, val, rest)" by simp
  then obtain c1 c2 s2 where d: "dropWhile is_word (c # cs) = c1 # c2 # s2"
    and r: "rest = dropWhile is_value_char s2"
    by (auto simp: match_here_def Let_def split: if_splits list.splits)
  have "length rest \<le> length s2"
    unfolding r by (rule length_dropWhile_le)
  moreover have "length (c1 # c2 # s2) \<le> length (c # cs)"
    unfolding d [symmetric] by (rule length_dropWhile_le)
  ultimately show "(rest, c # cs) \<in> measure length" by simp
next
  fix c :: char and cs :: string
  show "(cs, c # cs) \<in> measure length" by simp
qed

type_synonym attributes = "string \<rightharpoonup> string"

definition read_line_attributes :: "string \<Rightarrow> attributes" where
  "read_line_attributes line =
     foldl (\<lambda>ret (key, val). ret(key \<mapsto> val)) Map.empty (findall line)"

section \<open>\<open>get_meta_info\<close>\<close>

text \<open>
  \<open>float(attrs[key])\<close>: the lookup raises \<open>KeyError\<close> on a missing key, the conversion
  raises \<open>ValueError\<close>. The built-in \<open>float\<close> on text is a parameter of the model:
  \<open>float_of v\<close> is the number \<open>float(v)\<close> returns, or \<open>None\<close> where it raises.
\<close>

definition float_attr :: "(string \<Rightarrow> real option) \<Rightarrow> attributes \<Rightarrow> string \<Rightarrow> error + real" where
  "float_attr float_of attrs key =
     (case attrs key of
        None \<Rightarrow> Inl (KeyError key)
      | Some v \<Rightarrow> (case float_of v of None \<Rightarrow> Inl (ValueError v) | Some x \<Rightarrow> Inr x))"

text \<open>
  The \<open>if\<close> statement in the loop of \<open>get_meta_info\<close>, in Python's order of evaluation:
  the modulus (which raises on a zero increment), then the latitude, then the longitude
  only when the latitude is \<open>0.0\<close>; in the body the keyword arguments \<open>long\<close>, \<open>lat\<close>,
  \<open>abs_alt\<close>, \<open>focal_len\<close> from left to right, then \<open>result.append\<close>.
\<close>

definition add_attributes ::
  "(string \<Rightarrow> real option) \<Rightarrow> int \<Rightarrow> int \<Rightarrow> attributes \<Rightarrow> ImageData list
     \<Rightarrow> error + ImageData list" where
  "add_attributes float_of inc_frames count attrs result =
     (if inc_frames = 0 then Inl ZeroDivisionError
      else if count mod inc_frames \<noteq> 0 then Inr result
      else
        case float_attr float_of attrs ''latitude'' of
          Inl e \<Rightarrow> Inl e
        | Inr la \<Rightarrow>
            (case (if la \<noteq> 0 then Inr True
                   else case float_attr float_of attrs ''longitude'' of
                          Inl e \<Rightarrow> Inl e
                        | Inr lo \<Rightarrow> Inr (lo \<noteq> 0)) of
               Inl e \<Rightarrow> Inl e
             | Inr valid \<Rightarrow>
                 if \<not> valid then Inr result
                 else
                   (case float_attr float_of attrs ''longitude'' of
                      Inl e \<Rightarrow> Inl e
                    | Inr lo \<Rightarrow>
                   (case float_attr float_of attrs ''latitude'' of
                      Inl e \<Rightarrow> Inl e
                    | Inr la' \<Rightarrow>
                   (case float_attr float_of attrs ''abs_alt'' of
                      Inl e \<Rightarrow> Inl e
                    | Inr al \<Rightarrow>
                   (case float_attr float_of attrs ''focal_len'' of
                      Inl e \<Rightarrow> Inl e
                    | Inr fl \<Rightarrow>
                        Inr (result @ [\<lparr> lat = la', long = lo, abs_alt = al,
                                          focal_len = fl, frame_num = count \<rparr>])))))))"

text \<open>
  The open file is the list of the lines not yet read, each as \<open>readline\<close> returns it
  (with its line terminator, so a line of the file is never empty); at the end of the
  file \<open>readline\<close> returns the empty string.
\<close>

fun readline :: "string list \<Rightarrow> string \<times> string list" where
  "readline [] = ([], [])"
| "readline (l # ls) = (l, ls)"

text \<open>A \<open>file.readline()\<close> whose result is dropped.\<close>

definition skip_line :: "string list \<Rightarrow> string list" where
  "skip_line file = snd (readline file)"

text \<open>The \<open>while True\<close> loop, with the file, \<open>count\<close> and \<open>result\<close> as its state.\<close>

function read_blocks ::
  "(string \<Rightarrow> real option) \<Rightarrow> int \<Rightarrow> string list \<Rightarrow> int \<Rightarrow> ImageData list
     \<Rightarrow> error + ImageData list" where
  "read_blocks float_of inc_frames file count result =
     (case readline file of
        (next_line, file1) \<Rightarrow>
          if next_line = [] then Inr result
          else
            (case add_attributes float_of inc_frames count
                    (read_line_attributes next_line) result of
               Inl e \<Rightarrow> Inl e
             | Inr result' \<Rightarrow>
                 read_blocks float_of inc_frames
                   (skip_line (skip_line (skip_line (skip_line (skip_line file1)))))
                   (count + 1) result'))"
  by pat_completeness auto
termination
proof (relation "measure (\<lambda>(float_of, inc_frames, file, count, result). length file)")
  fix float_of :: "string \<Rightarrow> real option" and inc_frames count :: int
    and "file" file1 :: "string list" and result result' :: "ImageData list"
    and next_line :: string
  assume "(next_line, file1) = readline file" and "next_line \<noteq> []"
  then have "length file1 < length file"
    by (cases "file") auto
  moreover have "length (skip_line f) \<le> length f" for f
    by (cases f) (simp_all add: skip_line_def)
  ultimately have
    "length (skip_line (skip_line (skip_line (skip_line (skip_line file1))))) < length file"
    by (meson le_trans not_le)
  then show "((float_of, inc_frames,
       skip_line (skip_line (skip_line (skip_line (skip_line file1)))), count + 1, result'),
      (float_of, inc_frames, file, count, result))
     \<in> measure (\<lambda>(float_of, inc_frames, file, count, result). length file)"
    by simp
qed simp

declare read_blocks.simps [simp del]

definition get_meta_info ::
  "(string \<Rightarrow> real option) \<Rightarrow> string list \<Rightarrow> int \<Rightarrow> error + ImageData list" where
  "get_meta_info float_of srt_f inc_frames =
     read_blocks float_of inc_frames
       (skip_line (skip_line (skip_line (skip_line srt_f)))) 0 []"

section \<open>The file name built by \<open>save_images\<close>\<close>

definition OUTPUT_DIR :: string where
  "OUTPUT_DIR = ''./out/''"

text \<open>
  \<open>s.split(sep)\<close> for a separator of one character. The result is never empty, so
  the indexing \<open>[-1]\<close> and \<open>[0]\<close> of the source cannot raise and is \<open>last\<close> and \<open>hd\<close>.
\<close>

fun split_on :: "char \<Rightarrow> string \<Rightarrow> string list" where
  "split_on sep [] = [] # []"
| "split_on sep (c # cs) =
     (if c = sep then [] # split_on sep cs
      else case split_on sep cs of
             [] \<Rightarrow> [c] # []
           | p # ps \<Rightarrow> (c # p) # ps)"

text \<open>\<open>str(n)\<close> for a Python \<open>int\<close>: the decimal digits, after a minus sign if negative.\<close>

fun str_nat :: "nat \<Rightarrow> string" where
  "str_nat n =
     (if n < 10 then [char_of (48 + n)]
      else str_nat (n div 10) @ [char_of (48 + n mod 10)])"

declare str_nat.simps [simp del]

definition str_int :: "int \<Rightarrow> string" where
  "str_int i = (if i < 0 then CHR ''-'' # str_nat (nat (- i)) else str_nat (nat i))"

definition out_prefix :: "string \<Rightarrow> string" where
  "out_prefix video_path =
     OUTPUT_DIR @ hd (split_on (CHR ''.'') (last (split_on (CHR ''/'') video_path))) @ ''_''"

definition saved_name :: "string \<Rightarrow> ImageData \<Rightarrow> string" where
  "saved_name video_path frame = out_prefix video_path @ str_int (frame_num frame) @ ''.jpg''"

text \<open>
  The words of the specification: the base filename of a path is what follows its last
  slash, and stripping the extension removes the last dot and what follows it.
\<close>

definition base_filename :: "string \<Rightarrow> string" where
  "base_filename path = rev (takeWhile (\<lambda>c. c \<noteq> CHR ''/'') (rev path))"

definition extension_stripped :: "string \<Rightarrow> string" where
  "extension_stripped name =
     (if CHR ''.'' \<in> set name then rev (tl (dropWhile (\<lambda>c. c \<noteq> CHR ''.'') (rev name)))
      else name)"

section \<open>The command line\<close>

definition DEFAULT_INC_SECONDS :: int where
  "DEFAULT_INC_SECONDS = 1"

definition is_digit :: "char \<Rightarrow> bool" where
  "is_digit c = (let n = (of_char c :: nat) in 48 \<le> n \<and> n \<le> 57)"

definition digit_value :: "char \<Rightarrow> nat" where
  "digit_value c = of_char c - 48"

definition nat_of_digits :: "string \<Rightarrow> nat" where
  "nat_of_digits ds = foldl (\<lambda>a c. 10 * a + digit_value c) 0 ds"

text \<open>
  The built-in \<open>int\<close> on text, base 10, for ASCII: surrounding whitespace is stripped, one
  sign is allowed, then come digits, with single underscores allowed between digits.
  Anything else raises \<open>ValueError\<close>.
\<close>

definition strip :: "string \<Rightarrow> string" where
  "strip s = rev (dropWhile is_space (rev (dropWhile is_space s)))"

fun valid_digits :: "string \<Rightarrow> bool" where
  "valid_digits [] = False"
| "valid_digits [c] = is_digit c"
| "valid_digits (c # d # r) =
     (is_digit c \<and> (if d = CHR ''_'' then valid_digits r else valid_digits (d # r)))"

definition int_of_str :: "string \<Rightarrow> error + int" where
  "int_of_str s =
     (let t = strip s;
          negative = (t \<noteq> [] \<and> hd t = CHR ''-'');
          body = (if t \<noteq> [] \<and> (hd t = CHR ''-'' \<or> hd t = CHR ''+'') then tl t else t)
      in if valid_digits body
         then Inr ((if negative then - 1 else 1)
                   * int (nat_of_digits (filter (\<lambda>c. c \<noteq> CHR ''_'') body)))
         else Inl (ValueError s))"

text \<open>
  The script body under \<open>__name__ == '__main__'\<close>: what it does with \<open>sys.argv\<close>. It calls
  \<open>main\<close> with the two paths and the interval, or prints the usage text.
\<close>

datatype action = Main string string real | Usage

definition script :: "string list \<Rightarrow> error + action" where
  "script argv =
     (if length argv = 3 then Inr (Main (argv ! 1) (argv ! 2) (of_int DEFAULT_INC_SECONDS))
      else if length argv = 4 then
        (case int_of_str (argv ! 3) of
           Inl e \<Rightarrow> Inl e
         | Inr n \<Rightarrow> Inr (Main (argv ! 1) (argv ! 2) (of_int n)))
      else Inr Usage)"

section \<open>The reader, as the specification words it\<close>

text \<open>
  The GPS sentinel: latitude and longitude both read as \<open>0.0\<close>.
\<close>

definition gps_sentinel :: "(string \<Rightarrow> real option) \<Rightarrow> attributes \<Rightarrow> bool" where
  "gps_sentinel float_of attrs =
     (float_attr float_of attrs ''latitude'' = Inr 0
      \<and> float_attr float_of attrs ''longitude'' = Inr 0)"

definition parses :: "(string \<Rightarrow> real option) \<Rightarrow> attributes \<Rightarrow> string \<Rightarrow> bool" where
  "parses float_of attrs key =
     (case float_attr float_of attrs key of Inl e \<Rightarrow> False | Inr x \<Rightarrow> True)"

text \<open>A block has the four required attributes, each with a value that \<open>float\<close> accepts.\<close>

definition has_required :: "(string \<Rightarrow> real option) \<Rightarrow> attributes \<Rightarrow> bool" where
  "has_required float_of attrs =
     (parses float_of attrs ''latitude'' \<and> parses float_of attrs ''longitude''
      \<and> parses float_of attrs ''abs_alt'' \<and> parses float_of attrs ''focal_len'')"

definition attr_value :: "(string \<Rightarrow> real option) \<Rightarrow> attributes \<Rightarrow> string \<Rightarrow> real" where
  "attr_value float_of attrs key =
     (case float_attr float_of attrs key of Inl e \<Rightarrow> 0 | Inr x \<Rightarrow> x)"

text \<open>The GeoSample of the block with frame counter \<open>k\<close>.\<close>

definition geo_sample :: "(string \<Rightarrow> real option) \<Rightarrow> int \<Rightarrow> attributes \<Rightarrow> ImageData" where
  "geo_sample float_of k attrs =
     \<lparr> lat = attr_value float_of attrs ''latitude'',
       long = attr_value float_of attrs ''longitude'',
       abs_alt = attr_value float_of attrs ''abs_alt'',
       focal_len = attr_value float_of attrs ''focal_len'',
       frame_num = k \<rparr>"

text \<open>
  A block qualifies when its frame counter is divisible by the increment and its GPS is
  not the sentinel; the expected output has one GeoSample for each qualifying block, in
  the order of the blocks. The blocks are given by their attribute lines, numbered from
  \<open>c\<close>.
\<close>

definition qualifies :: "(string \<Rightarrow> real option) \<Rightarrow> int \<Rightarrow> nat \<times> string \<Rightarrow> bool" where
  "qualifies float_of inc =
     (\<lambda>(k, l). int k mod inc = 0 \<and> \<not> gps_sentinel float_of (read_line_attributes l))"

definition expected_samples ::
  "(string \<Rightarrow> real option) \<Rightarrow> int \<Rightarrow> nat \<Rightarrow> string list \<Rightarrow> ImageData list" where
  "expected_samples float_of inc c ls =
     map (\<lambda>(k, l). geo_sample float_of (int k) (read_line_attributes l))
       (filter (qualifies float_of inc) (enumerate c ls))"

text \<open>
  A block that the reader gets past without raising: skipped by the increment, or with
  the sentinel GPS, or with all four required attributes.
\<close>

definition block_passes :: "(string \<Rightarrow> real option) \<Rightarrow> int \<Rightarrow> nat \<Rightarrow> attributes \<Rightarrow> bool" where
  "block_passes float_of inc k attrs =
     (int k mod inc \<noteq> 0 \<or> gps_sentinel float_of attrs \<or> has_required float_of attrs)"

text \<open>
  The lines that the loop of \<open>get_meta_info\<close> parses, out of the lines that follow the four
  it skips first: every sixth line, up to the end of the file; and the loop as a fold over
  these lines.
\<close>

fun attribute_lines :: "string list \<Rightarrow> string list" where
  "attribute_lines [] = []"
| "attribute_lines (l # ls) = (if l = [] then [] else l # attribute_lines (drop 5 ls))"

fun fold_lines ::
  "(string \<Rightarrow> real option) \<Rightarrow> int \<Rightarrow> string list \<Rightarrow> int \<Rightarrow> ImageData list
     \<Rightarrow> error + ImageData list" where
  "fold_lines float_of inc_frames [] count result = Inr result"
| "fold_lines float_of inc_frames (l # ls) count result =
     (case add_attributes float_of inc_frames count (read_line_attributes l) result of
        Inl e \<Rightarrow> Inl e
      | Inr result' \<Rightarrow> fold_lines float_of inc_frames ls (count + 1) result')"

section \<open>Decimal literals, for the worked examples\<close>

text \<open>
  The values of \<open>float\<close> on plain decimal literals (an optional sign, digits, an optional
  point and digits). The theorems about the reader hold for every \<open>float_of\<close>; this one
  instantiates them on concrete logs, whose numbers are exactly representable. It gives
  \<open>None\<close> on every other text, which is not what \<open>float\<close> does on exponents, \<open>inf\<close> or
  \<open>nan\<close>: the examples use none of these.
\<close>

definition unsigned_decimal :: "string \<Rightarrow> real option" where
  "unsigned_decimal s =
     (let ip = takeWhile is_digit s in
      case dropWhile is_digit s of
        [] \<Rightarrow> if ip = [] then None else Some (real (nat_of_digits ip))
      | c # fp \<Rightarrow>
          if c = CHR ''.'' \<and> list_all is_digit fp \<and> (ip \<noteq> [] \<or> fp \<noteq> [])
          then Some (real (nat_of_digits ip) + real (nat_of_digits fp) / 10 ^ length fp)
          else None)"

definition decimal_literal :: "string \<Rightarrow> real option" where
  "decimal_literal s =
     (case s of
        [] \<Rightarrow> None
      | c # r \<Rightarrow>
          if c = CHR ''-'' then map_option uminus (unsigned_decimal r)
          else if c = CHR ''+'' then unsigned_decimal r
          else unsigned_decimal s)"

text \<open>
  A line of text with its terminator, and a block of the log as the docstring of
  \<open>get_meta_info\<close> lists it: the frame number, the time range, the frame count, the date
  and time, the attributes and a blank line.
\<close>

definition line :: "string \<Rightarrow> string" where
  "line s = s @ [CHR 0x0A]"

definition frame_block :: "string \<Rightarrow> string \<Rightarrow> string list" where
  "frame_block ordinal attribute_text =
     [line ordinal, line ''00:00:00,000 --> 00:00:00,033'', line ''FrameCnt : 1'',
      line ''2021-09-07 12:00:00'', line attribute_text, line []]"

section \<open>Properties of the frame increment\<close>

lemma int_of_float_nonneg: "0 \<le> x \<Longrightarrow> int_of_float x = \<lfloor>x\<rfloor>"
  by (simp add: int_of_float_def)

text \<open>
  Claim C3, as stated, at an interval of a hundredth of a second and 30 frames per second:
  the product is 0.3, the calculator returns 0, which is neither \<open>max 1 (floor 0.3) = 1\<close>
  nor strictly positive.
\<close>

theorem calculate_frame_increment_not_clamped:
  "\<not> (calculate_frame_increment (1 / 100) 30 = max 1 \<lfloor>(1 / 100) * (30::real)\<rfloor>
      \<and> 0 < calculate_frame_increment (1 / 100) 30)"
  by (simp add: calculate_frame_increment_def int_of_float_def)

text \<open>
  Claim C3, amended: for every non-negative interval and every positive frame rate the
  calculator returns \<open>floor (seconds * framerate)\<close>, with no clamp to 1; the result is
  strictly positive, and equal to \<open>max 1 (floor (seconds * framerate))\<close>, exactly when
  \<open>seconds * framerate\<close> is at least 1.
\<close>

theorem calculate_frame_increment_floor:
  assumes "0 \<le> seconds" and "0 < framerate"
  shows "calculate_frame_increment seconds framerate = \<lfloor>seconds * framerate\<rfloor>
    \<and> (0 < calculate_frame_increment seconds framerate \<longleftrightarrow> 1 \<le> seconds * framerate)
    \<and> (calculate_frame_increment seconds framerate = max 1 \<lfloor>seconds * framerate\<rfloor>
         \<longleftrightarrow> 1 \<le> seconds * framerate)"
proof -
  have nn: "0 \<le> framerate * seconds"
    using assms by simp
  have eq: "calculate_frame_increment seconds framerate = \<lfloor>seconds * framerate\<rfloor>"
    using nn by (simp add: calculate_frame_increment_def int_of_float_nonneg mult.commute)
  have fl: "0 \<le> \<lfloor>seconds * framerate\<rfloor>"
    using nn by (simp add: mult.commute)
  have pos: "0 < \<lfloor>seconds * framerate\<rfloor> \<longleftrightarrow> 1 \<le> seconds * framerate"
    by (simp add: zero_less_floor)
  have mx: "f = max 1 f \<longleftrightarrow> 0 < f" if "0 \<le> f" for f :: int
    using that by (auto simp: max_def)
  show ?thesis
    unfolding eq using pos mx [OF fl] by blast
qed

text \<open>
  Claim C3, amended, on the example of the specification: 2 seconds at 30 frames per second
  give an increment of 60.
\<close>

theorem calculate_frame_increment_floor_witness:
  "(0::real) \<le> 2 \<and> (0::real) < 30 \<and> calculate_frame_increment 2 30 = 60
    \<and> 0 < calculate_frame_increment 2 30"
  using calculate_frame_increment_floor [of 2 30] by simp

section \<open>Properties of the geodetic conversion\<close>

lemma decimal_degrees_to_minutes_seconds_value:
  "decimal_degrees_to_minutes_seconds d =
     Inr (of_int \<lfloor>real_of_int \<lfloor>\<bar>d\<bar> * 3600 / 60\<rfloor> / 60\<rfloor>,
          of_int \<lfloor>\<bar>d\<bar> * 3600 / 60\<rfloor>
            - of_int \<lfloor>real_of_int \<lfloor>\<bar>d\<bar> * 3600 / 60\<rfloor> / 60\<rfloor> * 60,
          \<bar>d\<bar> * 3600 - of_int \<lfloor>\<bar>d\<bar> * 3600 / 60\<rfloor> * 60)"
  by (simp add: decimal_degrees_to_minutes_seconds_def divmod_float_def)

text \<open>
  Claim C4: for every real decimal-degree value the converter returns a triple (there is no
  error branch it can reach), whose components recompose to \<open>|d| * 3600\<close> seconds of arc,
  with minutes and seconds in \<open>[0, 60)\<close> and non-negative degrees. Floats are read as the
  reals they denote, so the equation is exact here.
\<close>

theorem decimal_degrees_to_minutes_seconds_total:
  "\<exists>deg mnt sec.
     decimal_degrees_to_minutes_seconds d = Inr (deg, mnt, sec)
     \<and> deg * 3600 + mnt * 60 + sec = \<bar>d\<bar> * 3600
     \<and> 0 \<le> mnt \<and> mnt < 60 \<and> 0 \<le> sec \<and> sec < 60 \<and> 0 \<le> deg"
proof -
  define t where "t = \<bar>d\<bar> * 3600"
  define m where "m = \<lfloor>t / 60\<rfloor>"
  define g where "g = \<lfloor>real_of_int m / 60\<rfloor>"
  have t0: "0 \<le> t" by (simp add: t_def)
  have m0: "0 \<le> m" using t0 by (simp add: m_def)
  have g0: "0 \<le> g" using m0 by (simp add: g_def)
  have res: "decimal_degrees_to_minutes_seconds d =
      Inr (of_int g, of_int m - of_int g * 60, t - of_int m * 60)"
    unfolding g_def m_def t_def by (rule decimal_degrees_to_minutes_seconds_value)
  have s_lo: "0 \<le> t - of_int m * 60"
    using of_int_floor_le [of "t / 60"] by (simp add: m_def)
  have "t / 60 < of_int m + 1"
    unfolding m_def by linarith
  then have s_hi: "t - of_int m * 60 < 60"
    by (simp add: pos_divide_less_eq algebra_simps)
  have m_lo: "0 \<le> real_of_int m - of_int g * 60"
    using of_int_floor_le [of "real_of_int m / 60"] by (simp add: g_def)
  have "real_of_int m / 60 < of_int g + 1"
    unfolding g_def by linarith
  then have m_hi: "real_of_int m - of_int g * 60 < 60"
    by (simp add: pos_divide_less_eq algebra_simps)
  have sum: "real_of_int g * 3600 + (of_int m - of_int g * 60) * 60 + (t - of_int m * 60) = t"
    by (simp add: algebra_simps)
  show ?thesis
    using res s_lo s_hi m_lo m_hi sum g0 by (simp add: t_def)
qed

section \<open>Properties of the embedded references\<close>

text \<open>
  Claim C6: for every frame the export writes EXIF fields, and the references are chosen
  by a strict greater-than-zero test: latitude above 0 gives N, otherwise (0 included) S;
  longitude above 0 gives E, otherwise W; altitude above 0 gives above sea level, otherwise
  below; the stored altitude is the absolute value of the signed altitude.
\<close>

theorem add_exif_data_references:
  "\<exists>x. add_exif_data frame = Inr x
     \<and> gps_latitude_ref x = (if lat frame > 0 then ''N'' else ''S'')
     \<and> gps_longitude_ref x = (if long frame > 0 then ''E'' else ''W'')
     \<and> gps_altitude_ref x = (if abs_alt frame > 0 then ABOVE_SEA_LEVEL else BELOW_SEA_LEVEL)
     \<and> gps_altitude x = \<bar>abs_alt frame\<bar>"
proof -
  show ?thesis
    by (simp add: add_exif_data_def decimal_degrees_to_minutes_seconds_value)
qed

section \<open>Lemmas about the reader\<close>

lemma skip_line_tl: "skip_line f = tl f"
  by (cases f) (simp_all add: skip_line_def)

lemma skip_5: "skip_line (skip_line (skip_line (skip_line (skip_line f)))) = drop 5 f"
  by (simp add: skip_line_tl drop_Suc numeral_eq_Suc tl_drop)

lemma skip_4: "skip_line (skip_line (skip_line (skip_line f))) = drop 4 f"
  by (simp add: skip_line_tl drop_Suc numeral_eq_Suc tl_drop)

lemma read_blocks_fold:
  "read_blocks float_of inc_frames f count result =
     fold_lines float_of inc_frames (attribute_lines f) count result"
proof (induction float_of inc_frames f count result rule: read_blocks.induct)
  case (1 float_of inc_frames f count result)
  show ?case
  proof (cases f)
    case Nil
    then show ?thesis by (subst read_blocks.simps) simp
  next
    case (Cons l ls)
    show ?thesis
    proof (cases "l = []")
      case True
      then show ?thesis using Cons by (subst read_blocks.simps) simp
    next
      case False
      then show ?thesis
        using Cons "1.IH" [of l ls]
        by (subst read_blocks.simps) (simp add: skip_5 split: sum.splits)
    qed
  qed
qed

lemma get_meta_info_fold:
  "get_meta_info float_of srt_f inc_frames =
     fold_lines float_of inc_frames (attribute_lines (drop 4 srt_f)) 0 []"
  by (simp only: get_meta_info_def read_blocks_fold skip_4)

lemma parses_Inr: "parses f a k \<Longrightarrow> float_attr f a k = Inr (attr_value f a k)"
  by (auto simp: parses_def attr_value_def split: sum.splits)

lemma add_attributes_skip:
  "inc \<noteq> 0 \<Longrightarrow> count mod inc \<noteq> 0 \<Longrightarrow> add_attributes f inc count attrs result = Inr result"
  by (simp add: add_attributes_def)

lemma add_attributes_sentinel:
  "inc \<noteq> 0 \<Longrightarrow> gps_sentinel f attrs \<Longrightarrow> add_attributes f inc count attrs result = Inr result"
  by (simp add: add_attributes_def gps_sentinel_def)

lemma add_attributes_emit:
  assumes "inc \<noteq> 0" and "count mod inc = 0" and "\<not> gps_sentinel f attrs" and "has_required f attrs"
  shows "add_attributes f inc count attrs result = Inr (result @ [geo_sample f count attrs])"
proof -
  have la: "float_attr f attrs ''latitude'' = Inr (attr_value f attrs ''latitude'')"
    and lo: "float_attr f attrs ''longitude'' = Inr (attr_value f attrs ''longitude'')"
    and al: "float_attr f attrs ''abs_alt'' = Inr (attr_value f attrs ''abs_alt'')"
    and fl: "float_attr f attrs ''focal_len'' = Inr (attr_value f attrs ''focal_len'')"
    using assms(4) by (simp_all add: has_required_def parses_Inr)
  have nz: "attr_value f attrs ''latitude'' \<noteq> 0 \<or> attr_value f attrs ''longitude'' \<noteq> 0"
    using assms(3) la lo by (auto simp: gps_sentinel_def)
  show ?thesis
    using assms(1,2) nz by (auto simp: add_attributes_def la lo al fl geo_sample_def)
qed

lemma fold_lines_expected:
  assumes "inc \<noteq> 0"
    and "\<forall>(k, l) \<in> set (enumerate c ls). block_passes f inc k (read_line_attributes l)"
  shows "fold_lines f inc ls (int c) result = Inr (result @ expected_samples f inc c ls)"
  using assms(2)
proof (induction ls arbitrary: c result)
  case Nil
  then show ?case by (simp add: expected_samples_def)
next
  case (Cons l ls)
  have tl: "\<forall>(k, l) \<in> set (enumerate (Suc c) ls). block_passes f inc k (read_line_attributes l)"
    using Cons.prems by simp
  have hd: "block_passes f inc c (read_line_attributes l)"
    using Cons.prems by simp
  have ih: "fold_lines f inc ls (int c + 1) r = Inr (r @ expected_samples f inc (Suc c) ls)" for r
    using Cons.IH [OF tl, of r] by (simp add: add.commute)
  show ?case
  proof (cases "qualifies f inc (c, l)")
    case True
    then have "add_attributes f inc (int c) (read_line_attributes l) result =
        Inr (result @ [geo_sample f (int c) (read_line_attributes l)])"
      using hd assms(1) by (intro add_attributes_emit) (auto simp: qualifies_def block_passes_def)
    then show ?thesis using True by (simp add: ih expected_samples_def)
  next
    case False
    then have "add_attributes f inc (int c) (read_line_attributes l) result = Inr result"
      using assms(1) by (auto simp: qualifies_def add_attributes_skip add_attributes_sentinel)
    then show ?thesis using False by (simp add: ih expected_samples_def)
  qed
qed

lemma attribute_lines_nth:
  "j < length (attribute_lines f) \<Longrightarrow> attribute_lines f ! j = f ! (6 * j) \<and> 6 * j < length f"
proof (induction f arbitrary: j rule: attribute_lines.induct)
  case 1
  then show ?case by simp
next
  case (2 l ls)
  show ?case
  proof (cases "l = []")
    case True
    with "2.prems" show ?thesis by simp
  next
    case False
    show ?thesis
    proof (cases j)
      case 0
      with False show ?thesis by simp
    next
      case (Suc i)
      with False "2.prems" have "i < length (attribute_lines (drop 5 ls))" by simp
      from "2.IH" [OF False this]
      have "attribute_lines (drop 5 ls) ! i = drop 5 ls ! (6 * i)" and "6 * i < length (drop 5 ls)"
        by simp_all
      then show ?thesis using False Suc by (simp add: add.commute)
    qed
  qed
qed

lemma attribute_lines_blocks:
  assumes "\<forall>b \<in> set blocks. length b = 6 \<and> b ! 4 \<noteq> []"
  shows "attribute_lines (drop 4 (concat blocks)) = map (\<lambda>b. b ! 4) blocks"
  using assms
proof (induction blocks)
  case Nil
  then show ?case by simp
next
  case (Cons b bs)
  then have len: "length b = 6" and ne: "b ! 4 \<noteq> []" by simp_all
  from len obtain l0 l1 l2 l3 l4 l5 where b: "b = [l0, l1, l2, l3, l4, l5]"
    by (auto simp: numeral_eq_Suc length_Suc_conv)
  have "attribute_lines (drop 4 (concat (b # bs))) = l4 # attribute_lines (drop 4 (concat bs))"
    using ne b by simp
  then show ?case using Cons b by simp
qed

lemma add_attributes_Inr:
  assumes "add_attributes f inc c a r = Inr r'"
  shows "r' = r \<or> (\<exists>s. r' = r @ [s] \<and> frame_num s = c
           \<and> float_attr f a ''latitude'' = Inr (lat s)
           \<and> float_attr f a ''longitude'' = Inr (long s)
           \<and> (lat s \<noteq> 0 \<or> long s \<noteq> 0))"
  using assms
  by (auto simp: add_attributes_def split: if_splits sum.splits)

lemma fold_lines_origin:
  assumes "fold_lines f inc ls c result = Inr out" and "s \<in> set out"
  shows "s \<in> set result \<or> (\<exists>j<length ls. frame_num s = c + int j
           \<and> float_attr f (read_line_attributes (ls ! j)) ''latitude'' = Inr (lat s)
           \<and> float_attr f (read_line_attributes (ls ! j)) ''longitude'' = Inr (long s)
           \<and> (lat s \<noteq> 0 \<or> long s \<noteq> 0))"
  using assms
proof (induction ls arbitrary: c result)
  case Nil
  then show ?case by simp
next
  case (Cons l ls)
  from Cons.prems(1) obtain r1 where
    step: "add_attributes f inc c (read_line_attributes l) result = Inr r1"
    and rest: "fold_lines f inc ls (c + 1) r1 = Inr out"
    by (auto split: sum.splits)
  from Cons.IH [OF rest Cons.prems(2)]
  consider (old) "s \<in> set r1"
    | (new) j where "j < length ls" "frame_num s = c + 1 + int j"
        "float_attr f (read_line_attributes (ls ! j)) ''latitude'' = Inr (lat s)"
        "float_attr f (read_line_attributes (ls ! j)) ''longitude'' = Inr (long s)"
        "lat s \<noteq> 0 \<or> long s \<noteq> 0"
    by blast
  then show ?case
  proof cases
    case old
    from add_attributes_Inr [OF step] old
    have "s \<in> set result \<or> (frame_num s = c
           \<and> float_attr f (read_line_attributes l) ''latitude'' = Inr (lat s)
           \<and> float_attr f (read_line_attributes l) ''longitude'' = Inr (long s)
           \<and> (lat s \<noteq> 0 \<or> long s \<noteq> 0))"
      by auto
    then show ?thesis
    proof
      assume "s \<in> set result"
      then show ?thesis by simp
    next
      assume h: "frame_num s = c
           \<and> float_attr f (read_line_attributes l) ''latitude'' = Inr (lat s)
           \<and> float_attr f (read_line_attributes l) ''longitude'' = Inr (long s)
           \<and> (lat s \<noteq> 0 \<or> long s \<noteq> 0)"
      have "0 < length (l # ls)" by simp
      with h show ?thesis
        by (intro disjI2 exI [of _ 0]) simp
    qed
  next
    case new
    have "Suc j < length (l # ls)" using new(1) by simp
    moreover have "frame_num s = c + int (Suc j)" using new(2) by simp
    ultimately show ?thesis using new(3,4,5)
      by (intro disjI2 exI [of _ "Suc j"]) simp
  qed
qed

lemma fold_lines_append:
  "fold_lines f inc (xs @ ys) c r =
     (case fold_lines f inc xs c r of
        Inl e \<Rightarrow> Inl e
      | Inr r' \<Rightarrow> fold_lines f inc ys (c + int (length xs)) r')"
  by (induction xs arbitrary: c r) (auto split: sum.splits simp: add.assoc)

lemma fold_lines_abort:
  assumes "inc \<noteq> 0" and "k < length ls"
    and "\<forall>j<k. block_passes f inc j (read_line_attributes (ls ! j))"
    and "\<forall>r. add_attributes f inc (int k) (read_line_attributes (ls ! k)) r = Inl e"
  shows "fold_lines f inc ls 0 result = Inl e"
proof -
  have split: "ls = take k ls @ (ls ! k # drop (Suc k) ls)"
    using assms(2) by (simp add: id_take_nth_drop [symmetric])
  have "\<forall>(j, l) \<in> set (enumerate 0 (take k ls)). block_passes f inc j (read_line_attributes l)"
    using assms(2,3) by (auto simp: in_set_enumerate_eq)
  from fold_lines_expected [OF assms(1) this, of result]
  have pre: "fold_lines f inc (take k ls) 0 result =
      Inr (result @ expected_samples f inc 0 (take k ls))"
    by simp
  have "fold_lines f inc ls 0 result =
      fold_lines f inc (take k ls @ (ls ! k # drop (Suc k) ls)) 0 result"
    using split by simp
  also have "\<dots> = Inl e"
    using assms(2,4) by (simp add: fold_lines_append pre min_def)
  finally show ?thesis .
qed

lemma expected_samples_ascending:
  "sorted_wrt (<) (map frame_num (expected_samples f inc c ls))"
proof -
  have "map frame_num (expected_samples f inc c ls) =
      map int (map fst (filter (qualifies f inc) (enumerate c ls)))"
    by (simp add: expected_samples_def geo_sample_def case_prod_unfold comp_def)
  moreover have "sorted_wrt (<) (map fst (filter (qualifies f inc) (enumerate c ls)))"
  proof -
    have "sorted_wrt (<) (map fst (enumerate c ls))"
      by simp
    then have "sorted_wrt (\<lambda>x y. fst x < fst y) (enumerate c ls)"
      by (simp only: sorted_wrt_map)
    then have "sorted_wrt (\<lambda>x y. fst x < fst y) (filter (qualifies f inc) (enumerate c ls))"
      by (rule sorted_wrt_filter)
    then show ?thesis
      by (simp only: sorted_wrt_map)
  qed
  ultimately show ?thesis
    by (simp add: sorted_wrt_map)
qed

lemma expected_samples_frames:
  "frame_num ` set (expected_samples f inc 0 ls) =
     {int k |k. k < length ls \<and> int k mod inc = 0
        \<and> \<not> gps_sentinel f (read_line_attributes (ls ! k))}"
  by (force simp: expected_samples_def geo_sample_def qualifies_def in_set_enumerate_eq image_iff)

lemma passes_enumerate_map:
  assumes "\<forall>(k, b) \<in> set (enumerate c blocks). P k (g b)"
  shows "\<forall>(k, l) \<in> set (enumerate c (map g blocks)). P k l"
  using assms by (induction blocks arbitrary: c) auto

lemma get_meta_info_expected:
  assumes "inc \<noteq> 0"
    and "\<forall>b \<in> set blocks. length b = 6 \<and> b ! 4 \<noteq> []"
    and "\<forall>(k, b) \<in> set (enumerate 0 blocks). block_passes f inc k (read_line_attributes (b ! 4))"
  shows "get_meta_info f (concat blocks) inc =
           Inr (expected_samples f inc 0 (map (\<lambda>b. b ! 4) blocks))"
proof -
  have "\<forall>(k, l) \<in> set (enumerate 0 (map (\<lambda>b. b ! 4) blocks)).
          block_passes f inc k (read_line_attributes l)"
    using assms(3) by (rule passes_enumerate_map)
  from fold_lines_expected [OF assms(1) this, of "[]"]
  show ?thesis
    by (simp add: get_meta_info_fold attribute_lines_blocks [OF assms(2)])
qed

section \<open>Claims about the reader\<close>

text \<open>
  Claim C1, amended: for every telemetry log that consists of 6-line blocks whose 5th line
  is the attribute line (the four lines that the reader skips first are the first four
  lines of the first block: there is no header before the blocks), with a non-zero
  increment and the four required attributes readable in every block, \<open>get_meta_info\<close>
  returns one GeoSample exactly for the blocks whose zero-based frame counter is divisible
  by the increment and whose GPS is not the \<open>(0.0, 0.0)\<close> sentinel, in ascending order of
  \<open>frame_num\<close>.
\<close>

theorem get_meta_info_blocks:
  assumes "inc \<noteq> 0"
    and "\<forall>b \<in> set blocks. length b = 6 \<and> b ! 4 \<noteq> [] \<and> has_required f (read_line_attributes (b ! 4))"
  shows "\<exists>samples. get_meta_info f (concat blocks) inc = Inr samples
    \<and> samples = expected_samples f inc 0 (map (\<lambda>b. b ! 4) blocks)
    \<and> frame_num ` set samples =
        {int k |k. k < length blocks \<and> int k mod inc = 0
           \<and> \<not> gps_sentinel f (read_line_attributes (blocks ! k ! 4))}
    \<and> sorted_wrt (<) (map frame_num samples)"
proof -
  have shape: "\<forall>b \<in> set blocks. length b = 6 \<and> b ! 4 \<noteq> []"
    using assms(2) by simp
  have "\<forall>(k, b) \<in> set (enumerate 0 blocks). block_passes f inc k (read_line_attributes (b ! 4))"
    using assms(2) by (auto simp: block_passes_def in_set_enumerate_eq)
  from get_meta_info_expected [OF assms(1) shape this]
  have run: "get_meta_info f (concat blocks) inc =
      Inr (expected_samples f inc 0 (map (\<lambda>b. b ! 4) blocks))" .
  have frames: "frame_num ` set (expected_samples f inc 0 (map (\<lambda>b. b ! 4) blocks)) =
      {int k |k. k < length blocks \<and> int k mod inc = 0
           \<and> \<not> gps_sentinel f (read_line_attributes (blocks ! k ! 4))}"
    unfolding expected_samples_frames by auto
  show ?thesis
    using run frames expected_samples_ascending by blast
qed

text \<open>
  Claim C9: with a frame increment of 0, a log that has a line after the four lines
  skipped first makes \<open>get_meta_info\<close> raise \<open>ZeroDivisionError\<close> at the modulus test of
  the first block; the increment is not rejected before the log is read, since a log of at
  most four lines is read to the end and gives the empty result.
\<close>

theorem get_meta_info_zero_increment:
  "(length header = 4 \<and> next_line \<noteq> [] \<longrightarrow>
      get_meta_info f (header @ next_line # rest) 0 = Inl ZeroDivisionError)
   \<and> (length srt_f \<le> 4 \<longrightarrow> get_meta_info f srt_f 0 = Inr [])"
  by (simp add: get_meta_info_fold add_attributes_def)

text \<open>
  Claim C10: for a non-zero increment, a block whose frame counter is not divisible by the
  increment is passed over whatever its attributes are (no key is looked up), and a block
  whose latitude and longitude both read \<open>0.0\<close> is passed over whatever else it has
  (\<open>abs_alt\<close> and \<open>focal_len\<close> are not looked up). Hence a log of 6-line blocks in which
  every block is skipped by the increment, or has the sentinel GPS, or has all four
  required attributes is read to the end without raising, and gives the expected
  GeoSamples.
\<close>

theorem lookups_only_when_needed:
  assumes "inc \<noteq> 0"
  shows "(count mod inc \<noteq> 0 \<longrightarrow> add_attributes f inc count attrs result = Inr result)
    \<and> (gps_sentinel f attrs \<longrightarrow> add_attributes f inc count attrs result = Inr result)
    \<and> ((\<forall>b \<in> set blocks. length b = 6 \<and> b ! 4 \<noteq> [])
        \<and> (\<forall>(k, b) \<in> set (enumerate 0 blocks).
              block_passes f inc k (read_line_attributes (b ! 4)))
        \<longrightarrow> get_meta_info f (concat blocks) inc =
              Inr (expected_samples f inc 0 (map (\<lambda>b. b ! 4) blocks)))"
  using assms add_attributes_skip add_attributes_sentinel get_meta_info_expected
  by blast

text \<open>
  Claim C2: for every telemetry log and every frame increment (positive or not), each
  GeoSample that \<open>get_meta_info\<close> returns has a latitude or a longitude other than \<open>0.0\<close>,
  and they are the values read from the attribute line of the block with its frame
  number (line \<open>4 + 6 * k\<close> of the log for frame \<open>k\<close>); so no GeoSample comes from a block
  whose latitude and longitude are both \<open>0.0\<close>, whether its frame counter is aligned with
  the increment or not.
\<close>

theorem no_sample_from_sentinel:
  assumes "get_meta_info f srt_f inc = Inr samples"
  shows "(\<forall>s \<in> set samples. lat s \<noteq> 0 \<or> long s \<noteq> 0)
    \<and> (\<forall>s \<in> set samples. \<exists>k. frame_num s = int k \<and> 4 + 6 * k < length srt_f
          \<and> float_attr f (read_line_attributes (srt_f ! (4 + 6 * k))) ''latitude'' = Inr (lat s)
          \<and> float_attr f (read_line_attributes (srt_f ! (4 + 6 * k))) ''longitude'' = Inr (long s))
    \<and> (gps_sentinel f (read_line_attributes (srt_f ! (4 + 6 * k)))
          \<longrightarrow> (\<forall>s \<in> set samples. frame_num s \<noteq> int k))"
proof -
  define ls where "ls = attribute_lines (drop 4 srt_f)"
  have run: "fold_lines f inc ls 0 [] = Inr samples"
    using assms by (simp add: get_meta_info_fold ls_def)
  have origin: "\<exists>j. frame_num s = int j \<and> 4 + 6 * j < length srt_f
          \<and> float_attr f (read_line_attributes (srt_f ! (4 + 6 * j))) ''latitude'' = Inr (lat s)
          \<and> float_attr f (read_line_attributes (srt_f ! (4 + 6 * j))) ''longitude'' = Inr (long s)
          \<and> (lat s \<noteq> 0 \<or> long s \<noteq> 0)" if "s \<in> set samples" for s
  proof -
    from fold_lines_origin [OF run that] obtain j where j: "j < length ls"
      and fr: "frame_num s = int j"
      and la: "float_attr f (read_line_attributes (ls ! j)) ''latitude'' = Inr (lat s)"
      and lo: "float_attr f (read_line_attributes (ls ! j)) ''longitude'' = Inr (long s)"
      and nz: "lat s \<noteq> 0 \<or> long s \<noteq> 0"
      by auto
    from attribute_lines_nth [of j "drop 4 srt_f"] j
    have "ls ! j = drop 4 srt_f ! (6 * j)" and "6 * j < length (drop 4 srt_f)"
      by (simp_all add: ls_def)
    then have "ls ! j = srt_f ! (4 + 6 * j)" and "4 + 6 * j < length srt_f"
      by auto
    with fr la lo nz show ?thesis by auto
  qed
  have c1: "\<forall>s \<in> set samples. lat s \<noteq> 0 \<or> long s \<noteq> 0"
    using origin by blast
  have c2: "\<forall>s \<in> set samples. \<exists>k. frame_num s = int k \<and> 4 + 6 * k < length srt_f
          \<and> float_attr f (read_line_attributes (srt_f ! (4 + 6 * k))) ''latitude'' = Inr (lat s)
          \<and> float_attr f (read_line_attributes (srt_f ! (4 + 6 * k))) ''longitude'' = Inr (long s)"
    using origin by blast
  have c3: "frame_num s \<noteq> int k"
    if sen: "gps_sentinel f (read_line_attributes (srt_f ! (4 + 6 * k)))" and s: "s \<in> set samples" for s
  proof
    assume eq: "frame_num s = int k"
    from origin [OF s] obtain j where "frame_num s = int j"
      and la: "float_attr f (read_line_attributes (srt_f ! (4 + 6 * j))) ''latitude'' = Inr (lat s)"
      and lo: "float_attr f (read_line_attributes (srt_f ! (4 + 6 * j))) ''longitude'' = Inr (long s)"
      and nz: "lat s \<noteq> 0 \<or> long s \<noteq> 0"
      by auto
    with eq have "j = k" by simp
    with la lo sen have "lat s = 0" and "long s = 0"
      by (simp_all add: gps_sentinel_def)
    with nz show False by simp
  qed
  show ?thesis using c1 c2 c3 by blast
qed

lemma add_attributes_missing:
  assumes "inc \<noteq> 0" and "count mod inc = 0"
  shows "attrs ''latitude'' = None \<Longrightarrow>
           add_attributes f inc count attrs r = Inl (KeyError ''latitude'')"
    and "parses f attrs ''latitude'' \<Longrightarrow> attrs ''longitude'' = None \<Longrightarrow>
           add_attributes f inc count attrs r = Inl (KeyError ''longitude'')"
    and "parses f attrs ''latitude'' \<Longrightarrow> parses f attrs ''longitude'' \<Longrightarrow>
           \<not> gps_sentinel f attrs \<Longrightarrow> attrs ''abs_alt'' = None \<Longrightarrow>
           add_attributes f inc count attrs r = Inl (KeyError ''abs_alt'')"
    and "parses f attrs ''latitude'' \<Longrightarrow> parses f attrs ''longitude'' \<Longrightarrow>
           \<not> gps_sentinel f attrs \<Longrightarrow> parses f attrs ''abs_alt'' \<Longrightarrow>
           attrs ''focal_len'' = None \<Longrightarrow>
           add_attributes f inc count attrs r = Inl (KeyError ''focal_len'')"
  using assms
  by (auto simp: add_attributes_def gps_sentinel_def parses_def float_attr_def
      split: sum.splits option.splits)

text \<open>
  Claim C5, amended: in a log of 6-line blocks read with a non-zero increment, take a
  block whose frame counter is divisible by the increment, all earlier blocks having been
  read without raising. If it lacks \<open>latitude\<close>, or has a readable latitude and lacks
  \<open>longitude\<close>, or has readable coordinates that are not the sentinel and lacks \<open>abs_alt\<close>,
  or additionally has a readable \<open>abs_alt\<close> and lacks \<open>focal_len\<close>, then the whole run
  raises \<open>KeyError\<close> for that key instead of skipping the block.
\<close>

theorem missing_attribute_aborts:
  assumes "inc \<noteq> 0"
    and "\<forall>b \<in> set blocks. length b = 6 \<and> b ! 4 \<noteq> []"
    and "k < length blocks" and "int k mod inc = 0"
    and "\<forall>(j, b) \<in> set (enumerate 0 (take k blocks)).
           block_passes f inc j (read_line_attributes (b ! 4))"
    and "attrs = read_line_attributes (blocks ! k ! 4)"
  shows "(attrs ''latitude'' = None \<longrightarrow>
            get_meta_info f (concat blocks) inc = Inl (KeyError ''latitude''))
    \<and> (parses f attrs ''latitude'' \<and> attrs ''longitude'' = None \<longrightarrow>
            get_meta_info f (concat blocks) inc = Inl (KeyError ''longitude''))
    \<and> (parses f attrs ''latitude'' \<and> parses f attrs ''longitude'' \<and> \<not> gps_sentinel f attrs
          \<and> attrs ''abs_alt'' = None \<longrightarrow>
            get_meta_info f (concat blocks) inc = Inl (KeyError ''abs_alt''))
    \<and> (parses f attrs ''latitude'' \<and> parses f attrs ''longitude'' \<and> \<not> gps_sentinel f attrs
          \<and> parses f attrs ''abs_alt'' \<and> attrs ''focal_len'' = None \<longrightarrow>
            get_meta_info f (concat blocks) inc = Inl (KeyError ''focal_len''))"
proof -
  define ls where "ls = map (\<lambda>b. b ! 4) blocks"
  have run: "get_meta_info f (concat blocks) inc = fold_lines f inc ls 0 []"
    by (simp add: get_meta_info_fold attribute_lines_blocks [OF assms(2)] ls_def)
  have k: "k < length ls" using assms(3) by (simp add: ls_def)
  have lk: "read_line_attributes (ls ! k) = attrs"
    using assms(3,6) by (simp add: ls_def)
  have before: "\<forall>j<k. block_passes f inc j (read_line_attributes (ls ! j))"
    using assms(3,5) by (auto simp: ls_def in_set_enumerate_eq)
  have abort: "get_meta_info f (concat blocks) inc = Inl e"
    if "\<forall>r. add_attributes f inc (int k) attrs r = Inl e" for e
    unfolding run using that fold_lines_abort [OF assms(1) k before, of e "[]"] lk by simp
  show ?thesis
    using add_attributes_missing [OF assms(1,4), where attrs = attrs and f = f] abort
    by blast
qed

lemmas evaluate =
  frame_block_def line_def decimal_literal_def unsigned_decimal_def nat_of_digits_def
  digit_value_def is_digit_def read_line_attributes_def match_here_def is_word_def
  is_space_def is_value_char_def float_attr_def parses_def has_required_def gps_sentinel_def
  attr_value_def geo_sample_def qualifies_def expected_samples_def block_passes_def
  add_attributes_def

section \<open>Worked examples of the reader\<close>

text \<open>
  Claim C1, amended, on a log of five blocks read with increment 2: frames 0, 2 and 4 are
  aligned, frame 2 has the sentinel GPS, and frames 0 and 4 are returned in this order.
\<close>

theorem get_meta_info_blocks_witness:
  "get_meta_info decimal_literal
     (concat [frame_block ''1'' ''[latitude: 1.5] [longitude: -2.0] [abs_alt: 3.0] [focal_len: 4.5]'',
              frame_block ''2'' ''[latitude: 5.0] [longitude: 6.0] [abs_alt: 3.0] [focal_len: 4.5]'',
              frame_block ''3'' ''[latitude: 0.0] [longitude: 0.0] [abs_alt: 3.0] [focal_len: 4.5]'',
              frame_block ''4'' ''[latitude: 5.0] [longitude: 6.0] [abs_alt: 3.0] [focal_len: 4.5]'',
              frame_block ''5'' ''[latitude: 0.0] [longitude: 7.0] [abs_alt: -8.0] [focal_len: 4.5]'']) 2
   = Inr [\<lparr>lat = 3 / 2, long = - 2, abs_alt = 3, focal_len = 9 / 2, frame_num = 0\<rparr>,
          \<lparr>lat = 0, long = 7, abs_alt = - 8, focal_len = 9 / 2, frame_num = 4\<rparr>]"
proof -
  let ?blocks = "[frame_block ''1'' ''[latitude: 1.5] [longitude: -2.0] [abs_alt: 3.0] [focal_len: 4.5]'',
              frame_block ''2'' ''[latitude: 5.0] [longitude: 6.0] [abs_alt: 3.0] [focal_len: 4.5]'',
              frame_block ''3'' ''[latitude: 0.0] [longitude: 0.0] [abs_alt: 3.0] [focal_len: 4.5]'',
              frame_block ''4'' ''[latitude: 5.0] [longitude: 6.0] [abs_alt: 3.0] [focal_len: 4.5]'',
              frame_block ''5'' ''[latitude: 0.0] [longitude: 7.0] [abs_alt: -8.0] [focal_len: 4.5]'']"
  have inc: "(2::int) \<noteq> 0" by simp
  have blocks: "\<forall>b \<in> set ?blocks. length b = 6 \<and> b ! 4 \<noteq> []
      \<and> has_required decimal_literal (read_line_attributes (b ! 4))"
    by (simp add: evaluate)
  have "expected_samples decimal_literal 2 0 (map (\<lambda>b. b ! 4) ?blocks) =
      [\<lparr>lat = 3 / 2, long = - 2, abs_alt = 3, focal_len = 9 / 2, frame_num = 0\<rparr>,
       \<lparr>lat = 0, long = 7, abs_alt = - 8, focal_len = 9 / 2, frame_num = 4\<rparr>]"
    by (simp add: evaluate)
  with get_meta_info_blocks [OF inc blocks] show ?thesis
    by simp
qed

text \<open>
  Claim C1, as stated, on a log made of a 4-line header followed by one 6-line block whose
  5th line is the attribute line, read with increment 1. The claim expects the one
  GeoSample of this block. The reader parses the line after the header, which is the first
  line of the block and has no attributes, and the run raises \<open>KeyError\<close>.
\<close>

theorem get_meta_info_header_counterexample:
  "get_meta_info decimal_literal
     ([line ''h1'', line ''h2'', line ''h3'', line ''h4'']
      @ concat [frame_block ''1'' ''[latitude: 1.5] [longitude: -2.0] [abs_alt: 3.0] [focal_len: 4.5]'']) 1
     = Inl (KeyError ''latitude'')
   \<and> expected_samples decimal_literal 1 0
       [line ''[latitude: 1.5] [longitude: -2.0] [abs_alt: 3.0] [focal_len: 4.5]'']
     = [\<lparr>lat = 3 / 2, long = - 2, abs_alt = 3, focal_len = 9 / 2, frame_num = 0\<rparr>]"
  by (simp add: get_meta_info_fold evaluate)

text \<open>
  Claim C2 on a log of two blocks read with increment 1: the second block has the sentinel
  GPS, and no GeoSample has frame number 1.
\<close>

theorem no_sample_from_sentinel_witness:
  "get_meta_info decimal_literal
     (concat [frame_block ''1'' ''[latitude: 1.5] [longitude: -2.0] [abs_alt: 3.0] [focal_len: 4.5]'',
              frame_block ''2'' ''[latitude: 0.0] [longitude: 0.0] [abs_alt: 3.0] [focal_len: 4.5]'']) 1
     = Inr [\<lparr>lat = 3 / 2, long = - 2, abs_alt = 3, focal_len = 9 / 2, frame_num = 0\<rparr>]
   \<and> (1::int) \<notin> frame_num `
         set [\<lparr>lat = 3 / 2, long = - 2, abs_alt = 3, focal_len = 9 / 2, frame_num = 0\<rparr>]"
proof -
  let ?log = "concat [frame_block ''1'' ''[latitude: 1.5] [longitude: -2.0] [abs_alt: 3.0] [focal_len: 4.5]'',
              frame_block ''2'' ''[latitude: 0.0] [longitude: 0.0] [abs_alt: 3.0] [focal_len: 4.5]'']"
  let ?out = "[\<lparr>lat = 3 / 2, long = - 2, abs_alt = 3, focal_len = 9 / 2, frame_num = 0\<rparr>]"
  have run: "get_meta_info decimal_literal ?log 1 = Inr ?out"
    by (simp add: get_meta_info_fold evaluate)
  have sentinel: "gps_sentinel decimal_literal (read_line_attributes (?log ! (4 + 6 * 1)))"
    by (simp add: evaluate)
  from no_sample_from_sentinel [OF run, where k = 1] sentinel
  have "\<forall>s \<in> set ?out. frame_num s \<noteq> int 1"
    by blast
  then show ?thesis using run by simp
qed

text \<open>
  Claim C5, amended, on a log of two blocks read with increment 1: the second block has
  valid coordinates and no \<open>abs_alt\<close>, and the run raises \<open>KeyError\<close> for \<open>abs_alt\<close>.
\<close>

theorem missing_attribute_aborts_witness:
  "get_meta_info decimal_literal
     (concat [frame_block ''1'' ''[latitude: 1.5] [longitude: -2.0] [abs_alt: 3.0] [focal_len: 4.5]'',
              frame_block ''2'' ''[latitude: 1.5] [longitude: -2.0] [focal_len: 4.5]'']) 1
     = Inl (KeyError ''abs_alt'')"
proof -
  let ?blocks = "[frame_block ''1'' ''[latitude: 1.5] [longitude: -2.0] [abs_alt: 3.0] [focal_len: 4.5]'',
              frame_block ''2'' ''[latitude: 1.5] [longitude: -2.0] [focal_len: 4.5]'']"
  let ?attrs = "read_line_attributes (?blocks ! 1 ! 4)"
  have inc: "(1::int) \<noteq> 0" by simp
  have shape: "\<forall>b \<in> set ?blocks. length b = 6 \<and> b ! 4 \<noteq> []"
    by (simp add: frame_block_def line_def)
  have k: "1 < length ?blocks" and al: "int 1 mod 1 = 0" by simp_all
  have before: "\<forall>(j, b) \<in> set (enumerate 0 (take 1 ?blocks)).
      block_passes decimal_literal 1 j (read_line_attributes (b ! 4))"
    by (simp add: evaluate)
  have here: "parses decimal_literal ?attrs ''latitude'' \<and> parses decimal_literal ?attrs ''longitude''
      \<and> \<not> gps_sentinel decimal_literal ?attrs \<and> ?attrs ''abs_alt'' = None"
    by (simp add: evaluate)
  from missing_attribute_aborts [OF inc shape k al before refl] here
  show ?thesis by blast
qed

text \<open>
  Claim C5, as stated, on a log of one block read with increment 1: the frame counter 0
  qualifies, the block lacks \<open>abs_alt\<close> and \<open>focal_len\<close>, and its coordinates are the
  sentinel. The run does not abort: it skips the block and returns the empty result.
\<close>

theorem sentinel_block_missing_altitude_counterexample:
  "read_line_attributes (frame_block ''1'' ''[latitude: 0.0] [longitude: 0.0]'' ! 4) ''abs_alt'' = None
   \<and> read_line_attributes (frame_block ''1'' ''[latitude: 0.0] [longitude: 0.0]'' ! 4) ''focal_len'' = None
   \<and> (0::int) mod 1 = 0
   \<and> get_meta_info decimal_literal
        (concat [frame_block ''1'' ''[latitude: 0.0] [longitude: 0.0]'']) 1 = Inr []"
  by (simp add: get_meta_info_fold evaluate)

text \<open>
  Claim C9 on a log of one block, and on a log of two lines, both read with increment 0.
\<close>

theorem get_meta_info_zero_increment_witness:
  "get_meta_info decimal_literal
     (frame_block ''1'' ''[latitude: 1.5] [longitude: -2.0] [abs_alt: 3.0] [focal_len: 4.5]'') 0
     = Inl ZeroDivisionError
   \<and> get_meta_info decimal_literal [line ''1'', line ''00:00:00,000 --> 00:00:00,033''] 0 = Inr []"
proof -
  have "get_meta_info decimal_literal
     ([line ''1'', line ''00:00:00,000 --> 00:00:00,033'', line ''FrameCnt : 1'',
       line ''2021-09-07 12:00:00'']
      @ line ''[latitude: 1.5] [longitude: -2.0] [abs_alt: 3.0] [focal_len: 4.5]'' # [line []]) 0
     = Inl ZeroDivisionError"
    using get_meta_info_zero_increment
      [where header = "[line ''1'', line ''00:00:00,000 --> 00:00:00,033'', line ''FrameCnt : 1'',
         line ''2021-09-07 12:00:00'']"
       and next_line = "line ''[latitude: 1.5] [longitude: -2.0] [abs_alt: 3.0] [focal_len: 4.5]''"
       and rest = "[line []]" and f = decimal_literal]
    by (simp add: line_def)
  moreover have "get_meta_info decimal_literal [line ''1'', line ''00:00:00,000 --> 00:00:00,033''] 0 = Inr []"
    using get_meta_info_zero_increment
      [where srt_f = "[line ''1'', line ''00:00:00,000 --> 00:00:00,033'']" and f = decimal_literal]
    by simp
  ultimately show ?thesis by (simp add: frame_block_def)
qed

text \<open>
  Claim C10 on a log of three blocks read with increment 2: the second block is skipped by
  the increment and has none of the required attributes, the third has the sentinel GPS
  and neither \<open>abs_alt\<close> nor \<open>focal_len\<close>; the run returns the GeoSample of the first.
\<close>

theorem lookups_only_when_needed_witness:
  "get_meta_info decimal_literal
     (concat [frame_block ''1'' ''[latitude: 1.5] [longitude: -2.0] [abs_alt: 3.0] [focal_len: 4.5]'',
              frame_block ''2'' ''[iso: 100]'',
              frame_block ''3'' ''[latitude: 0.0] [longitude: 0.0]'']) 2
     = Inr [\<lparr>lat = 3 / 2, long = - 2, abs_alt = 3, focal_len = 9 / 2, frame_num = 0\<rparr>]"
proof -
  let ?blocks = "[frame_block ''1'' ''[latitude: 1.5] [longitude: -2.0] [abs_alt: 3.0] [focal_len: 4.5]'',
              frame_block ''2'' ''[iso: 100]'',
              frame_block ''3'' ''[latitude: 0.0] [longitude: 0.0]'']"
  have inc: "(2::int) \<noteq> 0" by simp
  have shape: "\<forall>b \<in> set ?blocks. length b = 6 \<and> b ! 4 \<noteq> []"
    by (simp add: frame_block_def line_def)
  have passes: "\<forall>(k, b) \<in> set (enumerate 0 ?blocks).
      block_passes decimal_literal 2 k (read_line_attributes (b ! 4))"
    by (simp add: evaluate)
  have "expected_samples decimal_literal 2 0 (map (\<lambda>b. b ! 4) ?blocks) =
      [\<lparr>lat = 3 / 2, long = - 2, abs_alt = 3, focal_len = 9 / 2, frame_num = 0\<rparr>]"
    by (simp add: evaluate)
  with lookups_only_when_needed [OF inc, where blocks = ?blocks and f = decimal_literal]
    shape passes
  show ?thesis by simp
qed

section \<open>Claims about the file name\<close>

lemma split_on_not_Nil: "split_on sep s \<noteq> []"
  by (induction s) (auto split: list.splits)

lemma split_on_no_sep: "sep \<notin> set s \<Longrightarrow> split_on sep s = [s]"
  by (induction s) auto

lemma hd_split_on: "hd (split_on sep s) = takeWhile (\<lambda>c. c \<noteq> sep) s"
  by (induction s) (auto split: list.splits simp: split_on_not_Nil)

lemma split_on_tail: "sep \<in> set s \<Longrightarrow> \<exists>p q ps. split_on sep s = p # q # ps"
proof (induction s)
  case Nil
  then show ?case by simp
next
  case (Cons c cs)
  show ?case
  proof (cases "c = sep")
    case True
    obtain q ps where "split_on sep cs = q # ps"
      using split_on_not_Nil [of sep cs] by (cases "split_on sep cs") auto
    with True show ?thesis by simp
  next
    case False
    with Cons.prems have "sep \<in> set cs" by simp
    from Cons.IH [OF this] obtain p q ps where "split_on sep cs = p # q # ps" by blast
    with False show ?thesis by simp
  qed
qed

lemma last_split_on: "last (split_on sep s) = rev (takeWhile (\<lambda>c. c \<noteq> sep) (rev s))"
proof (induction s)
  case Nil
  then show ?case by simp
next
  case (Cons c cs)
  show ?case
  proof (cases "sep \<in> set cs")
    case True
    from split_on_tail [OF this] obtain p q ps where sp: "split_on sep cs = p # q # ps" by blast
    have "last (split_on sep (c # cs)) = last (split_on sep cs)"
      using sp by simp
    moreover have "takeWhile (\<lambda>c. c \<noteq> sep) (rev cs @ [c]) = takeWhile (\<lambda>c. c \<noteq> sep) (rev cs)"
      using True by (intro takeWhile_append1 [where x = sep]) auto
    ultimately show ?thesis using Cons.IH by simp
  next
    case False
    then have all: "takeWhile (\<lambda>c. c \<noteq> sep) (rev cs @ [c]) =
        rev cs @ takeWhile (\<lambda>c. c \<noteq> sep) [c]"
      by (intro takeWhile_append2) auto
    show ?thesis
    proof (cases "c = sep")
      case True
      then show ?thesis using False all by (simp add: split_on_no_sep)
    next
      case c: False
      then have "sep \<notin> set (c # cs)" using False by auto
      then have "split_on sep (c # cs) = [c # cs]" by (rule split_on_no_sep)
      then show ?thesis using c by (simp add: all)
    qed
  qed
qed

lemma first_dot_is_extension:
  assumes "count_list name (CHR ''.'') \<le> 1"
  shows "takeWhile (\<lambda>c. c \<noteq> CHR ''.'') name = extension_stripped name"
proof (cases "CHR ''.'' \<in> set name")
  case False
  then have "takeWhile (\<lambda>c. c \<noteq> CHR ''.'') name = name"
    by (auto simp: takeWhile_eq_all_conv)
  with False show ?thesis by (simp add: extension_stripped_def)
next
  case True
  then obtain a b where n: "name = a @ CHR ''.'' # b" and a: "CHR ''.'' \<notin> set a"
    by (meson split_list_first)
  have b: "CHR ''.'' \<notin> set b"
    using assms n by (auto simp: count_list_0_iff [symmetric] simp del: count_list_0_iff)
  have "takeWhile (\<lambda>c. c \<noteq> CHR ''.'') (a @ CHR ''.'' # b) =
      a @ takeWhile (\<lambda>c. c \<noteq> CHR ''.'') (CHR ''.'' # b)"
    by (intro takeWhile_append2) (use a in auto)
  then have "takeWhile (\<lambda>c. c \<noteq> CHR ''.'') name = a"
    by (simp add: n)
  moreover have "dropWhile (\<lambda>c. c \<noteq> CHR ''.'') (rev b @ CHR ''.'' # rev a) =
      dropWhile (\<lambda>c. c \<noteq> CHR ''.'') (CHR ''.'' # rev a)"
    by (intro dropWhile_append2) (use b in auto)
  then have "dropWhile (\<lambda>c. c \<noteq> CHR ''.'') (rev name) = CHR ''.'' # rev a"
    by (simp add: n)
  ultimately show ?thesis using True by (simp add: extension_stripped_def)
qed

lemma nat_of_digits_snoc: "nat_of_digits (ds @ [c]) = 10 * nat_of_digits ds + digit_value c"
  by (simp add: nat_of_digits_def)

lemma digit_value_char_of: "d < 10 \<Longrightarrow> digit_value (char_of (48 + d)) = d"
  by (simp add: digit_value_def)

lemma nat_of_digits_str_nat: "nat_of_digits (str_nat n) = n"
proof (induction n rule: str_nat.induct)
  case (1 n)
  show ?case
  proof (cases "n < 10")
    case True
    then show ?thesis
      by (subst str_nat.simps) (simp add: nat_of_digits_def digit_value_char_of)
  next
    case False
    then show ?thesis
      using "1.IH" by (subst str_nat.simps) (simp add: nat_of_digits_snoc digit_value_char_of)
  qed
qed

text \<open>
  Claim C7, amended: for every video path and every GeoSample, the name of the exported
  file is the output-directory prefix, the base filename of the video cut at its first
  dot, an underscore, the decimal digits of \<open>frame_num\<close> and \<open>.jpg\<close>. When the base filename
  has at most one dot, that is the base filename with its extension stripped.
\<close>

theorem saved_name_first_dot:
  "saved_name video_path frame =
     OUTPUT_DIR @ takeWhile (\<lambda>c. c \<noteq> CHR ''.'') (base_filename video_path) @ ''_''
       @ str_int (frame_num frame) @ ''.jpg''
   \<and> (count_list (base_filename video_path) (CHR ''.'') \<le> 1 \<longrightarrow>
        saved_name video_path frame =
          OUTPUT_DIR @ extension_stripped (base_filename video_path) @ ''_''
            @ str_int (frame_num frame) @ ''.jpg'')
   \<and> (0 \<le> frame_num frame \<longrightarrow> int (nat_of_digits (str_int (frame_num frame))) = frame_num frame)"
proof -
  have name: "saved_name video_path frame =
     OUTPUT_DIR @ takeWhile (\<lambda>c. c \<noteq> CHR ''.'') (base_filename video_path) @ ''_''
       @ str_int (frame_num frame) @ ''.jpg''"
    by (simp add: saved_name_def out_prefix_def hd_split_on last_split_on base_filename_def)
  have digits: "int (nat_of_digits (str_int i)) = i" if "0 \<le> i" for i
    using that by (simp add: str_int_def nat_of_digits_str_nat)
  show ?thesis
    using name first_dot_is_extension [of "base_filename video_path"] digits by simp
qed

lemma str_int_42: "str_int 42 = ''42''"
  by code_simp

text \<open>
  Claim C7, amended, on the example of the specification: video path \<open>a/b/clip.mp4\<close> and
  frame 42 give \<open>clip_42.jpg\<close> under the output directory.
\<close>

theorem saved_name_first_dot_witness:
  "saved_name ''a/b/clip.mp4''
     \<lparr>lat = 3 / 2, long = - 2, abs_alt = 3, focal_len = 9 / 2, frame_num = 42\<rparr>
   = ''./out/clip_42.jpg''"
proof -
  have "count_list (base_filename ''a/b/clip.mp4'') (CHR ''.'') \<le> 1"
    by (simp add: base_filename_def)
  with saved_name_first_dot [of "''a/b/clip.mp4''"
      "\<lparr>lat = 3 / 2, long = - 2, abs_alt = 3, focal_len = 9 / 2, frame_num = 42\<rparr>"]
  show ?thesis
    by (simp add: base_filename_def extension_stripped_def OUTPUT_DIR_def str_int_42)
qed

text \<open>
  Claim C7, as stated, on the video path \<open>a/b/clip.v2.mp4\<close> and frame 42: the base filename
  with its extension stripped is \<open>clip.v2\<close>, but the exported file is named \<open>clip_42.jpg\<close>.
\<close>

theorem saved_name_two_dots_counterexample:
  "saved_name ''a/b/clip.v2.mp4''
     \<lparr>lat = 3 / 2, long = - 2, abs_alt = 3, focal_len = 9 / 2, frame_num = 42\<rparr>
     = ''./out/clip_42.jpg''
   \<and> OUTPUT_DIR @ extension_stripped (base_filename ''a/b/clip.v2.mp4'') @ ''_''
       @ str_int 42 @ ''.jpg'' = ''./out/clip.v2_42.jpg''"
  by (simp add: saved_name_def out_prefix_def base_filename_def extension_stripped_def
      OUTPUT_DIR_def str_int_42)

section \<open>Claims about the command line\<close>

lemma valid_digits_chars: "valid_digits s \<Longrightarrow> c \<in> set s \<Longrightarrow> is_digit c \<or> c = CHR ''_''"
  by (induction s rule: valid_digits.induct) (auto split: if_splits)

lemma dropWhile_keeps: "x \<in> set xs \<Longrightarrow> \<not> P x \<Longrightarrow> x \<in> set (dropWhile P xs)"
  by (induction xs) auto

lemma strip_keeps: "c \<in> set s \<Longrightarrow> \<not> is_space c \<Longrightarrow> c \<in> set (strip s)"
  by (simp add: strip_def dropWhile_keeps)

lemma point_class:
  "\<not> is_space (CHR ''.'')" "\<not> is_digit (CHR ''.'')" "CHR ''.'' \<noteq> CHR ''_''"
  by (simp_all add: is_space_def is_digit_def)

lemma int_of_str_point:
  assumes "CHR ''.'' \<in> set s"
  shows "int_of_str s = Inl (ValueError s)"
proof -
  define t where "t = strip s"
  define body where
    "body = (if t \<noteq> [] \<and> (hd t = CHR ''-'' \<or> hd t = CHR ''+'') then tl t else t)"
  have t: "CHR ''.'' \<in> set t"
    using assms unfolding t_def by (rule strip_keeps) (rule point_class)
  then have "CHR ''.'' \<in> set body"
    unfolding body_def by (cases t) auto
  then have "\<not> valid_digits body"
    using valid_digits_chars [of body "CHR ''.''"] point_class by auto
  moreover have "int_of_str s = (if valid_digits body then int_of_str s else Inl (ValueError s))"
    by (simp add: int_of_str_def Let_def t_def body_def)
  ultimately show ?thesis
    by simp
qed

text \<open>
  Claim C8, amended: when an interval argument is supplied, it is passed through \<open>int\<close>:
  \<open>main\<close> is only ever called with the integer that the argument denotes, and an argument
  that contains a decimal point, such as \<open>0.5\<close>, is rejected with \<open>ValueError\<close>; it is
  neither truncated nor preserved.
\<close>

theorem script_interval_is_integer_text:
  assumes "length argv = 4"
  shows "(script argv = Inr (Main srt_path mp4_path inc_seconds) \<longrightarrow>
            srt_path = argv ! 1 \<and> mp4_path = argv ! 2
            \<and> (\<exists>n. int_of_str (argv ! 3) = Inr n \<and> inc_seconds = of_int n))
    \<and> (CHR ''.'' \<in> set (argv ! 3) \<longrightarrow> script argv = Inl (ValueError (argv ! 3)))"
  using assms by (auto simp: script_def int_of_str_point split: sum.splits)

text \<open>
  Claim C8, amended, on the command line with the interval \<open>1.5\<close>.
\<close>

theorem script_interval_is_integer_text_witness:
  "script [''process_srt.py'', ''flight.srt'', ''flight.mp4'', ''1.5''] = Inl (ValueError ''1.5'')"
  using script_interval_is_integer_text
    [of "[''process_srt.py'', ''flight.srt'', ''flight.mp4'', ''1.5'']"]
  by simp

text \<open>
  Claim C8, as stated, on the command line with the interval \<open>0.5\<close>: the script raises
  \<open>ValueError\<close> and \<open>main\<close> is not called, whereas the interval \<open>2\<close> is accepted.
\<close>

theorem script_fractional_interval_counterexample:
  "script [''process_srt.py'', ''flight.srt'', ''flight.mp4'', ''0.5''] = Inl (ValueError ''0.5'')
   \<and> script [''process_srt.py'', ''flight.srt'', ''flight.mp4'', ''2''] =
       Inr (Main ''flight.srt'' ''flight.mp4'' 2)"
  by (simp add: script_def int_of_str_def strip_def is_space_def is_digit_def nat_of_digits_def
      digit_value_def)

end
